theory Spec2Isabelle
  imports Main "HOL-Library.Multiset"
begin

section \<open>Data model of \<^verbatim>\<open>src/pages/Home.tsx\<close>\<close>

text \<open>
  The TypeScript type is
  \<^verbatim>\<open>type Post = { id: string; text: string; time: string | Date;
               notified?: boolean; color?: string }\<close>.
  The collection is filled from \<^verbatim>\<open>JSON.parse\<close> without any validation, so at run time
  every field can be \<^verbatim>\<open>undefined\<close>; each field is therefore an option, \<open>None\<close> for
  \<^verbatim>\<open>undefined\<close>. Every value the program itself stores in \<^verbatim>\<open>time\<close> is a string
  (\<^verbatim>\<open>toISOString()\<close>, or whatever the persisted JSON held), so \<^verbatim>\<open>time\<close> is a string.
  Strings are lists of 8-bit characters.
\<close>

record post =
  post_id :: "string option"
  post_text :: "string option"
  post_time :: "string option"
  notified :: "bool option"
  color :: "string option"

text \<open>
  \<^verbatim>\<open>new Date(s).getTime()\<close> for a string \<open>s\<close> belongs to the JavaScript engine. It is
  a parameter of the model: the number of milliseconds since the epoch, or \<open>None\<close> for
  \<^verbatim>\<open>NaN\<close> (an Invalid Date). \<^verbatim>\<open>new Date(undefined)\<close> is an Invalid Date.
\<close>

type_synonym date_parser = "string \<Rightarrow> int option"

definition new_Date :: "date_parser \<Rightarrow> string option \<Rightarrow> int option" where
  "new_Date D v = (case v of None \<Rightarrow> None | Some s \<Rightarrow> D s)"

text \<open>\<^verbatim>\<open>const shownToastIds = new Set<string>()\<close>: the module-level set of announced ids.\<close>

type_synonym ledger = "string option set"

text \<open>
  The browser as one tick sees it: the clock (\<^verbatim>\<open>new Date()\<close>), whether
  \<^verbatim>\<open>alarmSoundRef.current\<close> holds an audio element, whether
  \<^verbatim>\<open>document.visibilityState === "visible"\<close>, and what \<^verbatim>\<open>play()\<close> does: it returns
  \<^verbatim>\<open>undefined\<close> (old engines), a promise that resolves, or a promise that rejects.
\<close>

datatype playback = NoPromise | Resolves | Rejects

record browser =
  now :: int
  audio_ready :: bool
  visible :: bool
  play_result :: playback

text \<open>The observable effects of the program, in the order in which they happen.\<close>

datatype event =
    LedgerAdd "string option"
  | AudioRewind
  | AudioLoad
  | Toast "string option" "string option"
  | ToastPlain "string option"
  | AudioPlay
  | ConsoleWarn string
  | ConsoleError string
  | ConsoleLog string
  | ToastError string
  | ToastSuccess string

section \<open>The alarm checker \<^verbatim>\<open>checkAlarms\<close>\<close>

text \<open>
  \<^verbatim>\<open>Math.floor((postTime.getTime() - now.getTime()) / 60000)\<close>. Time values are
  integral, and the quotient is compared with 1 only, where the floating-point division
  agrees with the integer one; \<open>div\<close> on \<open>int\<close> rounds towards minus infinity as
  \<^verbatim>\<open>Math.floor\<close> does. \<open>None\<close> is \<^verbatim>\<open>NaN\<close>.
\<close>

definition minutesDiff :: "date_parser \<Rightarrow> int \<Rightarrow> post \<Rightarrow> int option" where
  "minutesDiff D n p =
     (case new_Date D (post_time p) of
        None \<Rightarrow> None
      | Some postTime \<Rightarrow> Some ((postTime - n) div 60000))"

text \<open>
  What the body of the \<^verbatim>\<open>if\<close> does after \<^verbatim>\<open>shownToastIds.add(post.id)\<close>: rewind the
  sound (\<^verbatim>\<open>pause()\<close>, \<^verbatim>\<open>currentTime = 0\<close>), show the toast rendered from \<^verbatim>\<open>post.text\<close>
  and \<^verbatim>\<open>post.color\<close>, play the sound, and log a warning if the promise rejects.
  \<^verbatim>\<open>document.visibilityState\<close> is not read.
\<close>

definition announce :: "browser \<Rightarrow> post \<Rightarrow> event list" where
  "announce b p =
     (if audio_ready b then [AudioRewind] else []) @
     [Toast (post_text p) (color p)] @
     (if audio_ready b
      then AudioPlay #
           (if play_result b = Rejects then [ConsoleWarn ''Audio playback prevented''] else [])
      else [])"

text \<open>The callback of \<^verbatim>\<open>prevPosts.map\<close>, with the set threaded through.\<close>

definition checkPost ::
  "date_parser \<Rightarrow> browser \<Rightarrow> ledger \<Rightarrow> post \<Rightarrow> post \<times> ledger \<times> event list" where
  "checkPost D b L p =
     (let alreadyShown = (post_id p \<in> L) in
      if minutesDiff D (now b) p = Some 1 \<and> \<not> alreadyShown
      then (p\<lparr>notified := Some True\<rparr>, insert (post_id p) L,
            LedgerAdd (post_id p) # announce b p)
      else (p, L, []))"

text \<open>
  \<^verbatim>\<open>prevPosts.map(...)\<close>: left to right; for each post the returned post and the events
  of its callback, and the set after the last callback.
\<close>

fun mapPosts ::
  "date_parser \<Rightarrow> browser \<Rightarrow> ledger \<Rightarrow> post list \<Rightarrow> (post \<times> event list) list \<times> ledger" where
  "mapPosts D b L [] = ([], L)"
| "mapPosts D b L (p # ps) =
     (case checkPost D b L p of
        (p', L', ev) \<Rightarrow>
          (case mapPosts D b L' ps of (rs, L'') \<Rightarrow> ((p', ev) # rs, L'')))"

text \<open>
  The state updater of \<^verbatim>\<open>checkAlarms\<close>. The two lists differ at most in \<^verbatim>\<open>notified\<close>
  fields that became \<^verbatim>\<open>true\<close>, so comparing their \<^verbatim>\<open>JSON.stringify\<close> images is
  comparing the lists. Result: the new post list, the new set, the events.
\<close>

definition checkAlarms ::
  "date_parser \<Rightarrow> browser \<Rightarrow> ledger \<Rightarrow> post list \<Rightarrow> post list \<times> ledger \<times> event list" where
  "checkAlarms D b L prevPosts =
     (case mapPosts D b L prevPosts of
        (rs, L') \<Rightarrow>
          (let updatedPosts = map fst rs in
           (if updatedPosts \<noteq> prevPosts then updatedPosts else prevPosts,
            L', concat (map snd rs))))"


text \<open>
  \<^verbatim>\<open>setInterval(checkAlarms, 30000)\<close>: the checker runs once per period, each run on
  the state the previous one left; \<open>bs\<close> are the browser states at the successive runs.
\<close>

fun runTicks ::
  "date_parser \<Rightarrow> browser list \<Rightarrow> ledger \<Rightarrow> post list \<Rightarrow> post list \<times> ledger \<times> event list" where
  "runTicks D [] L posts = (posts, L, [])"
| "runTicks D (b # bs) L posts =
     (case checkAlarms D b L posts of
        (posts1, L1, trace1) \<Rightarrow>
          (case runTicks D bs L1 posts1 of
             (posts2, L2, trace2) \<Rightarrow> (posts2, L2, trace1 @ trace2)))"

section \<open>The earlier alarm loop (\<^verbatim>\<open>src/unnamed/part_001\<close>)\<close>

text \<open>
  The other version of \<^verbatim>\<open>Home\<close> in the repository polls from a \<^verbatim>\<open>setInterval\<close>
  callback under the comment \<^verbatim>\<open>Alarm trigger loop\<close>. It has no set of shown ids: it
  tests \<^verbatim>\<open>!post.notified\<close>, and it plays the sound only when
  \<^verbatim>\<open>document.visibilityState === "visible"\<close>. Its five \<^verbatim>\<open>console.log\<close> debugging lines
  per post are left out of the trace.
\<close>

text \<open>
  The callback of \<^verbatim>\<open>posts.map\<close>. The code calls \<^verbatim>\<open>.then\<close> on what \<^verbatim>\<open>play()\<close> returns,
  which throws a TypeError when that is \<^verbatim>\<open>undefined\<close>: the post component of the result
  is \<open>None\<close> then, and the events are those before the throw.
\<close>

definition alarmTriggerPost ::
  "date_parser \<Rightarrow> browser \<Rightarrow> post \<Rightarrow> post option \<times> event list" where
  "alarmTriggerPost D b p =
     (if minutesDiff D (now b) p = Some 1 \<and> notified p \<noteq> Some True
      then (if audio_ready b
            then (if visible b
                  then (case play_result b of
                          Resolves \<Rightarrow>
                            (Some (p\<lparr>notified := Some True\<rparr>),
                             [ToastPlain (post_text p), AudioRewind, AudioLoad, AudioPlay,
                              ConsoleLog ''Alarm Played''])
                        | Rejects \<Rightarrow>
                            (Some (p\<lparr>notified := Some True\<rparr>),
                             [ToastPlain (post_text p), AudioRewind, AudioLoad, AudioPlay,
                              ConsoleError ''Alarm Failed to Play''])
                        | NoPromise \<Rightarrow>
                            (None, [ToastPlain (post_text p), AudioRewind, AudioLoad, AudioPlay]))
                  else (Some (p\<lparr>notified := Some True\<rparr>),
                        [ToastPlain (post_text p), AudioRewind, AudioLoad,
                         ConsoleWarn ''Tab not visible. Alarm skipped.'']))
            else (Some (p\<lparr>notified := Some True\<rparr>), [ToastPlain (post_text p)]))
      else (Some p, []))"

text \<open>\<^verbatim>\<open>posts.map(...)\<close>, left to right, up to the first callback that throws.\<close>

fun alarmTriggerMap ::
  "date_parser \<Rightarrow> browser \<Rightarrow> post list \<Rightarrow> post list option \<times> event list" where
  "alarmTriggerMap D b [] = (Some [], [])"
| "alarmTriggerMap D b (p # ps) =
     (case alarmTriggerPost D b p of
        (None, ev) \<Rightarrow> (None, ev)
      | (Some p', ev) \<Rightarrow>
          (case alarmTriggerMap D b ps of
             (None, ev') \<Rightarrow> (None, ev @ ev')
           | (Some ps', ev') \<Rightarrow> (Some (p' # ps'), ev @ ev')))"

text \<open>
  The interval callback: \<^verbatim>\<open>setPosts(updated)\<close> is reached only when the map returned.
  Result: the post list and the events.
\<close>

definition alarmTrigger :: "date_parser \<Rightarrow> browser \<Rightarrow> post list \<Rightarrow> post list \<times> event list" where
  "alarmTrigger D b posts =
     (case alarmTriggerMap D b posts of
        (None, ev) \<Rightarrow> (posts, ev)
      | (Some updated, ev) \<Rightarrow> (updated, ev))"

section \<open>Loading and saving\<close>

text \<open>
  \<^verbatim>\<open>JSON.parse\<close> and \<^verbatim>\<open>JSON.stringify\<close> belong to the engine and are parameters.
  \<^verbatim>\<open>JSON.parse(stored)\<close> throws a SyntaxError, or returns a value that is not an array
  (then \<^verbatim>\<open>parsed.map\<close> is not a function), or returns an array. An element of the array
  is \<^verbatim>\<open>null\<close> (\<open>None\<close>: reading \<^verbatim>\<open>p.color\<close> throws) or a record; an element that is
  neither has none of the five fields and is the record with every field \<open>None\<close>.
  Fields that are present are taken to have their declared types.
\<close>

datatype parsed = Throws | NonArray | Array "post option list"

type_synonym json_parser = "string \<Rightarrow> parsed"

type_synonym json_printer = "post list \<Rightarrow> string"

definition COLORS :: "string list" where
  "COLORS = [''bg-indigo-500'', ''bg-pink-500'', ''bg-emerald-500'', ''bg-amber-500'',
             ''bg-purple-500'']"

text \<open>
  \<^verbatim>\<open>COLORS[Math.floor(Math.random() * COLORS.length)]\<close>. \<^verbatim>\<open>Math.random()\<close> lies in
  \<open>[0, 1)\<close>, so the index lies below \<open>COLORS.length\<close>; the draw is the natural number
  \<open>r\<close>, reduced into that range.
\<close>

definition randomColor :: "nat \<Rightarrow> string" where
  "randomColor r = COLORS ! (r mod length COLORS)"

text \<open>
  \<^verbatim>\<open>{ ...p, color: p.color || <random colour>, notified: false }\<close>: an undefined or
  empty colour is falsy.
\<close>

definition withColor :: "nat \<Rightarrow> post \<Rightarrow> post" where
  "withColor r p =
     p\<lparr>color := (case color p of
                    None \<Rightarrow> Some (randomColor r)
                  | Some c \<Rightarrow> if c = [] then Some (randomColor r) else Some c),
       notified := Some False\<rparr>"

text \<open>
  \<^verbatim>\<open>parsed.map(...)\<close>; \<open>rnd k\<close> is the draw for the element at position \<open>k\<close>. \<open>None\<close>
  is the TypeError of a \<^verbatim>\<open>null\<close> element.
\<close>

fun withColors :: "(nat \<Rightarrow> nat) \<Rightarrow> nat \<Rightarrow> post option list \<Rightarrow> post list option" where
  "withColors rnd k [] = Some []"
| "withColors rnd k (None # xs) = None"
| "withColors rnd k (Some p # xs) =
     (case withColors rnd (Suc k) xs of
        None \<Rightarrow> None
      | Some ys \<Rightarrow> Some (withColor (rnd k) p # ys))"

text \<open>\<^verbatim>\<open>new Date(p.time) > now\<close> and \<^verbatim>\<open>new Date(p.time) <= now\<close>; both are false for
  an Invalid Date.\<close>

definition isUpcoming :: "date_parser \<Rightarrow> int \<Rightarrow> post \<Rightarrow> bool" where
  "isUpcoming D n p = (case new_Date D (post_time p) of None \<Rightarrow> False | Some t \<Rightarrow> t > n)"

definition isPast :: "date_parser \<Rightarrow> int \<Rightarrow> post \<Rightarrow> bool" where
  "isPast D n p = (case new_Date D (post_time p) of None \<Rightarrow> False | Some t \<Rightarrow> t \<le> n)"

text \<open>
  The sort key \<^verbatim>\<open>new Date(a.time).getTime()\<close>. The sort runs on posts that passed the
  filter, whose dates are valid; the \<open>None\<close> branch is never taken there.
  \<^verbatim>\<open>Array.prototype.sort\<close> is stable, as \<open>sort_key\<close> is.
\<close>

definition getTime :: "date_parser \<Rightarrow> post \<Rightarrow> int" where
  "getTime D p = (case new_Date D (post_time p) of None \<Rightarrow> 0 | Some t \<Rightarrow> t)"

definition loadFailure :: "event list" where
  "loadFailure = [ConsoleError ''Failed to parse stored posts'',
                  ToastError ''Failed to load saved posts'']"

text \<open>
  \<^verbatim>\<open>loadPosts\<close>: \<open>stored\<close> is \<^verbatim>\<open>localStorage.getItem("scheduled-posts")\<close>, \<open>None\<close> for
  \<^verbatim>\<open>null\<close>; \<^verbatim>\<open>if (stored)\<close> is false for \<^verbatim>\<open>null\<close> and for the empty string. \<open>posts\<close> is
  the state before the load (\<^verbatim>\<open>useState<Post[]>([])\<close>, so \<open>[]\<close> at start-up); the
  \<^verbatim>\<open>catch\<close> block does not call \<^verbatim>\<open>setPosts\<close>. Result: the state after the load and the
  events.
\<close>

definition loadPosts ::
  "json_parser \<Rightarrow> date_parser \<Rightarrow> (nat \<Rightarrow> nat) \<Rightarrow> int \<Rightarrow> string option \<Rightarrow> post list
     \<Rightarrow> post list \<times> event list" where
  "loadPosts J D rnd n stored posts =
     (case stored of
        None \<Rightarrow> (posts, [])
      | Some s \<Rightarrow>
          if s = [] then (posts, [])
          else (case J s of
                  Throws \<Rightarrow> (posts, loadFailure)
                | NonArray \<Rightarrow> (posts, loadFailure)
                | Array parsed \<Rightarrow>
                    (case withColors rnd 0 parsed of
                       None \<Rightarrow> (posts, loadFailure)
                     | Some withColors' \<Rightarrow>
                         (let upcoming = sort_key (getTime D) (filter (isUpcoming D n) withColors')
                          in (upcoming, [])))))"

text \<open>
  The save effect: \<^verbatim>\<open>localStorage.setItem("scheduled-posts", JSON.stringify(posts))\<close>;
  the new content of the slot. The 500 ms delay is not modelled.
\<close>

definition savePosts :: "json_printer \<Rightarrow> post list \<Rightarrow> string option" where
  "savePosts S posts = Some (S posts)"

text \<open>The two lists that are rendered, \<^verbatim>\<open>upcomingPosts\<close> and \<^verbatim>\<open>pastPosts\<close>.\<close>

definition upcomingPosts :: "date_parser \<Rightarrow> int \<Rightarrow> post list \<Rightarrow> post list" where
  "upcomingPosts D n posts = filter (isUpcoming D n) posts"

definition pastPosts :: "date_parser \<Rightarrow> int \<Rightarrow> post list \<Rightarrow> post list" where
  "pastPosts D n posts = filter (isPast D n) posts"

section \<open>Submitting the form\<close>

text \<open>
  The form state: \<^verbatim>\<open>input\<close>, \<^verbatim>\<open>time\<close> (\<^verbatim>\<open>Date | null\<close>; a date picked in the date picker,
  so a valid one, as its time value) and \<^verbatim>\<open>editingPostId\<close>.
\<close>

record form =
  input :: string
  time :: "int option"
  editingPostId :: "string option"

text \<open>
  \<^verbatim>\<open>String.prototype.trim\<close> removes white space and line terminators at both ends;
  among 8-bit characters these are U+0009 to U+000D, U+0020 and U+00A0.
\<close>

definition isWhiteSpace :: "char \<Rightarrow> bool" where
  "isWhiteSpace c = ((of_char c :: nat) \<in> {9, 10, 11, 12, 13, 32, 160})"

definition trim :: "string \<Rightarrow> string" where
  "trim s = rev (dropWhile isWhiteSpace (rev (dropWhile isWhiteSpace s)))"

text \<open>
  \<^verbatim>\<open>handleSubmit\<close>. Parameters from outside: \<open>toISOString\<close> is the method of that name, \<open>uuid\<close> the
  value of \<^verbatim>\<open>uuidv4()\<close>, \<open>r\<close> the random draw for the colour, \<open>n\<close> the value of
  \<^verbatim>\<open>new Date()\<close> in the third check. \<^verbatim>\<open>if (editingPostId)\<close> is false for \<^verbatim>\<open>null\<close> and
  for the empty string. Result: the post list, the form and the toasts.
\<close>

definition handleSubmit ::
  "(int \<Rightarrow> string) \<Rightarrow> string \<Rightarrow> nat \<Rightarrow> int \<Rightarrow> form \<Rightarrow> post list
     \<Rightarrow> post list \<times> form \<times> event list" where
  "handleSubmit toISOString uuid r n f posts =
     (if trim (input f) = [] then (posts, f, [ToastError ''Post content cannot be empty''])
      else case time f of
        None \<Rightarrow> (posts, f, [ToastError ''Please select a date and time''])
      | Some t \<Rightarrow>
          if t < n then (posts, f, [ToastError ''Please select a future date and time''])
          else if editingPostId f \<noteq> None \<and> editingPostId f \<noteq> Some []
          then (map (\<lambda>p. if post_id p = editingPostId f
                          then p\<lparr>post_text := Some (input f), post_time := Some (toISOString t),
                                 notified := Some False\<rparr>
                          else p) posts,
                \<lparr>input = [], time = None, editingPostId = None\<rparr>,
                [ToastSuccess ''Post updated successfully''])
          else (\<lparr>post_id = Some uuid, post_text = Some (input f), post_time = Some (toISOString t),
                 notified = Some False, color = Some (randomColor r)\<rparr> # posts,
                \<lparr>input = [], time = None, editingPostId = editingPostId f\<rparr>,
                [ToastSuccess ''Post scheduled successfully'']))"

section \<open>Deleting, and the states the program reaches\<close>




section \<open>Auxiliary notions for the statements\<close>

definition due :: "date_parser \<Rightarrow> browser \<Rightarrow> post \<Rightarrow> bool" where
  "due D b p = (minutesDiff D (now b) p = Some 1)"

text \<open>The set \<^verbatim>\<open>shownToastIds\<close> as it is when the map reaches position \<open>i\<close>.\<close>

definition ledger_at :: "date_parser \<Rightarrow> browser \<Rightarrow> ledger \<Rightarrow> post list \<Rightarrow> nat \<Rightarrow> ledger" where
  "ledger_at D b L posts i = L \<union> post_id ` {q \<in> set (take i posts). due D b q}"


text \<open>The fields that the persisted form of a post is about.\<close>

definition core :: "post \<Rightarrow> string option \<times> string option \<times> string option" where
  "core p = (post_id p, post_text p, post_time p)"

section \<open>A concrete engine for the examples\<close>

text \<open>
  Time values of a few ISO strings, as \<^verbatim>\<open>new Date(s).getTime()\<close> gives them, and
  \<^verbatim>\<open>toISOString\<close> on the same values; every other string is taken as unparseable.
\<close>

definition exDate :: date_parser where
  "exDate s =
     (if s = ''2029-12-31T23:55:00.000Z'' then Some 1893455700000
      else if s = ''2030-01-01T00:00:00.000Z'' then Some 1893456000000
      else if s = ''2030-01-01T00:01:30.000Z'' then Some 1893456090000
      else if s = ''2030-01-01T01:00:00.000Z'' then Some 1893459600000
      else None)"

definition exISO :: "int \<Rightarrow> string" where
  "exISO t =
     (if t = 1893455700000 then ''2029-12-31T23:55:00.000Z''
      else if t = 1893456000000 then ''2030-01-01T00:00:00.000Z''
      else if t = 1893456090000 then ''2030-01-01T00:01:30.000Z''
      else if t = 1893459600000 then ''2030-01-01T01:00:00.000Z''
      else ''other'')"

text \<open>A clock reading: 2030-01-01T00:00:00.000Z.\<close>

definition exNow :: int where
  "exNow = 1893456000000"

definition exBrowser :: browser where
  "exBrowser = \<lparr>now = exNow, audio_ready = True, visible = False, play_result = Rejects\<rparr>"

definition exPost :: "string \<Rightarrow> string \<Rightarrow> string \<Rightarrow> post" where
  "exPost i t at =
     \<lparr>post_id = Some i, post_text = Some t, post_time = Some at, notified = Some False,
      color = Some ''bg-pink-500''\<rparr>"

text \<open>Posts due in 90 seconds, due in an hour, and due five minutes ago.\<close>

definition exSoon :: post where
  "exSoon = exPost ''a1'' ''Ship release'' ''2030-01-01T00:01:30.000Z''"

definition exLater :: post where
  "exLater = exPost ''b2'' ''Write notes'' ''2030-01-01T01:00:00.000Z''"

definition exOld :: post where
  "exOld = exPost ''c3'' ''Call back'' ''2029-12-31T23:55:00.000Z''"

text \<open>A stored record that has a time, an hour ahead, and nothing else.\<close>

definition exBare :: post where
  "exBare = \<lparr>post_id = None, post_text = None, post_time = Some ''2030-01-01T01:00:00.000Z'',
             notified = None, color = None\<rparr>"

text \<open>
  A printer and a parser that agree on the lists used in the examples: the slot text
  \<open>''A''\<close> stands for the JSON text of \<open>[exLater, exSoon]\<close>, \<open>''B''\<close> for that of
  \<open>[exOld]\<close>, \<open>''C''\<close> for an array whose only record has a time and nothing else;
  every other text is rejected.
\<close>

definition exStringify :: json_printer where
  "exStringify posts = (if posts = [exLater, exSoon] then ''A'' else if posts = [exOld] then ''B'' else ''?'')"

definition exParse :: json_parser where
  "exParse s =
     (if s = ''A'' then Array [Some exLater, Some exSoon]
      else if s = ''B'' then Array [Some exOld]
      else if s = ''C'' then Array [Some exBare]
      else if s = ''null'' then NonArray
      else Throws)"

definition exRnd :: "nat \<Rightarrow> nat" where
  "exRnd k = 3"

section \<open>Properties of one tick\<close>

lemmas ex_defs = exDate_def exISO_def exNow_def exBrowser_def exPost_def exSoon_def exLater_def
  exOld_def exBare_def exStringify_def exParse_def exRnd_def

lemmas tick_defs = checkAlarms_def checkPost_def announce_def minutesDiff_def new_Date_def
  ledger_at_def due_def Let_def

lemmas load_defs = loadPosts_def savePosts_def withColor_def randomColor_def COLORS_def
  isUpcoming_def isPast_def getTime_def new_Date_def core_def upcomingPosts_def pastPosts_def
  loadFailure_def

lemmas submit_defs = handleSubmit_def trim_def isWhiteSpace_def randomColor_def COLORS_def

lemma due_iff_window:
  "due D b p \<longleftrightarrow> (\<exists>t. new_Date D (post_time p) = Some t \<and> 60000 \<le> t - now b \<and> t - now b < 120000)"
  by (auto simp: due_def minutesDiff_def split: option.splits)

lemma checkPost_ledger:
  "fst (snd (checkPost D b L p)) = (if due D b p then insert (post_id p) L else L)"
  by (auto simp: checkPost_def due_def Let_def)

lemma mapPosts_Cons_fst:
  "fst (mapPosts D b L (p # ps)) =
     (fst (checkPost D b L p), snd (snd (checkPost D b L p))) #
     fst (mapPosts D b (fst (snd (checkPost D b L p))) ps)"
  by (simp split: prod.splits)

lemma mapPosts_length: "length (fst (mapPosts D b L ps)) = length ps"
proof (induction ps arbitrary: L)
  case Nil
  show ?case by simp
next
  case (Cons p ps)
  show ?case
    unfolding mapPosts_Cons_fst using Cons.IH by simp
qed

lemma mapPosts_ledger:
  "snd (mapPosts D b L ps) = L \<union> post_id ` {q \<in> set ps. due D b q}"
proof (induction ps arbitrary: L)
  case Nil
  show ?case by simp
next
  case (Cons p ps)
  obtain p' L' ev where cp: "checkPost D b L p = (p', L', ev)"
    by (cases "checkPost D b L p") auto
  have L': "L' = (if due D b p then insert (post_id p) L else L)"
    using checkPost_ledger [of D b L p] cp by simp
  have "snd (mapPosts D b L (p # ps)) = snd (mapPosts D b L' ps)"
    using cp by (simp split: prod.splits)
  also have "\<dots> = L' \<union> post_id ` {q \<in> set ps. due D b q}"
    by (rule Cons.IH)
  also have "\<dots> = L \<union> post_id ` {q \<in> set (p # ps). due D b q}"
    using L' by auto
  finally show ?case .
qed

lemma mapPosts_nth:
  "i < length ps \<Longrightarrow>
   fst (mapPosts D b L ps) ! i =
     (case checkPost D b (ledger_at D b L ps i) (ps ! i) of (p', L', ev) \<Rightarrow> (p', ev))"
proof (induction ps arbitrary: L i)
  case Nil
  then show ?case by simp
next
  case (Cons p ps)
  obtain p' L' ev where cp: "checkPost D b L p = (p', L', ev)"
    by (cases "checkPost D b L p") auto
  have L': "L' = (if due D b p then insert (post_id p) L else L)"
    using checkPost_ledger [of D b L p] cp by simp
  show ?case
  proof (cases i)
    case 0
    then show ?thesis using cp by (simp add: ledger_at_def split: prod.splits)
  next
    case (Suc j)
    with Cons.prems have j: "j < length ps" by simp
    have eq: "ledger_at D b L (p # ps) (Suc j) = ledger_at D b L' ps j"
      using L' by (auto simp: ledger_at_def)
    have "fst (mapPosts D b L (p # ps)) ! Suc j = fst (mapPosts D b L' ps) ! j"
      using cp by (simp split: prod.splits)
    also have "\<dots> = (case checkPost D b (ledger_at D b L' ps j) (ps ! j) of
                        (p', L', ev) \<Rightarrow> (p', ev))"
      by (rule Cons.IH [OF j])
    finally show ?thesis using Suc eq by simp
  qed
qed

lemma checkAlarms_posts:
  "fst (checkAlarms D b L ps) = map fst (fst (mapPosts D b L ps))"
  by (auto simp: checkAlarms_def Let_def split: prod.splits)

lemma checkAlarms_ledger:
  "fst (snd (checkAlarms D b L ps)) = snd (mapPosts D b L ps)"
  by (auto simp: checkAlarms_def Let_def split: prod.splits)

lemma checkAlarms_events:
  "snd (snd (checkAlarms D b L ps)) = concat (map snd (fst (mapPosts D b L ps)))"
  by (auto simp: checkAlarms_def Let_def split: prod.splits)

text \<open>
  Claim C1. In a tick at time \<open>now b\<close>, the post at any position \<open>i\<close> is announced (the
  toast is shown with its text and colour) and gets \<open>notified = true\<close> exactly when
  \<open>floor ((time - now) / 60000) = 1\<close> and its id is not in the set at the moment the
  post is examined; otherwise the post is returned as it was and nothing happens for
  it. When it fires, the insertion of the id into the set is the first event, before
  the toast, and the id is in the set after the tick. The events of the tick are the
  events of its posts, in order.
\<close>

theorem checkAlarms_fires_iff:
  assumes "i < length posts"
  shows "let p = posts ! i;
             fires = (minutesDiff D (now b) p = Some 1 \<and> post_id p \<notin> ledger_at D b L posts i);
             outcome = fst (mapPosts D b L posts) ! i
         in (fires \<longrightarrow>
               fst (checkAlarms D b L posts) ! i = p\<lparr>notified := Some True\<rparr> \<and>
               (\<exists>rest. snd outcome = LedgerAdd (post_id p) # rest \<and>
                       Toast (post_text p) (color p) \<in> set rest \<and>
                       (\<forall>x c. Toast x c \<in> set rest \<longrightarrow> x = post_text p \<and> c = color p)) \<and>
               post_id p \<in> fst (snd (checkAlarms D b L posts)))
          \<and> (\<not> fires \<longrightarrow> fst (checkAlarms D b L posts) ! i = p \<and> snd outcome = [])
          \<and> snd (snd (checkAlarms D b L posts)) = concat (map snd (fst (mapPosts D b L posts)))"
proof -
  let ?p = "posts ! i"
  let ?Li = "ledger_at D b L posts i"
  have len: "i < length (fst (mapPosts D b L posts))"
    using assms by (simp add: mapPosts_length)
  have out: "fst (mapPosts D b L posts) ! i =
               (case checkPost D b ?Li ?p of (p', L', ev) \<Rightarrow> (p', ev))"
    by (rule mapPosts_nth [OF assms])
  have post_i: "fst (checkAlarms D b L posts) ! i = fst (fst (mapPosts D b L posts) ! i)"
    using len by (simp add: checkAlarms_posts)
  have mem: "minutesDiff D (now b) ?p = Some 1 \<Longrightarrow> post_id ?p \<in> fst (snd (checkAlarms D b L posts))"
  proof -
    assume "minutesDiff D (now b) ?p = Some 1"
    then have "due D b ?p" by (simp add: due_def)
    moreover have "?p \<in> set posts" using assms by simp
    ultimately show ?thesis
      by (auto simp: checkAlarms_ledger mapPosts_ledger)
  qed
  show ?thesis
    using out post_i mem
    by (auto simp: Let_def checkPost_def checkAlarms_events announce_def split: if_splits)
qed

text \<open>
  The theorem at the list \<open>[exLater, exSoon]\<close>, position 1, with an empty set, at
  2030-01-01T00:00:00.000Z: the post due in 90 seconds fires.
\<close>

theorem checkAlarms_fires_iff_witness:
  "(1::nat) < length [exLater, exSoon] \<and>
   fst (checkAlarms exDate exBrowser {} [exLater, exSoon]) ! 1 = exSoon\<lparr>notified := Some True\<rparr> \<and>
   snd (fst (mapPosts exDate exBrowser {} [exLater, exSoon]) ! 1) =
     [LedgerAdd (Some ''a1''), AudioRewind, Toast (Some ''Ship release'') (Some ''bg-pink-500''),
      AudioPlay, ConsoleWarn ''Audio playback prevented''] \<and>
   fst (snd (checkAlarms exDate exBrowser {} [exLater, exSoon])) = {Some ''a1''}"
  using checkAlarms_fires_iff [of 1 "[exLater, exSoon]" exDate exBrowser "{}"]
  by (simp add: tick_defs ex_defs)


section \<open>Two ticks; what a tick leaves alone\<close>

lemma checkPost_cases:
  "checkPost D b L p =
     (if due D b p \<and> post_id p \<notin> L
      then (p\<lparr>notified := Some True\<rparr>, insert (post_id p) L, LedgerAdd (post_id p) # announce b p)
      else (p, L, []))"
  by (simp add: checkPost_def due_def Let_def)

lemma due_notified_update [simp]: "due D b (p\<lparr>notified := v\<rparr>) = due D b p"
  by (simp add: due_def minutesDiff_def)

lemma checkPost_post:
  "fst (checkPost D b L p) = p \<or> fst (checkPost D b L p) = p\<lparr>notified := Some True\<rparr>"
  by (simp add: checkPost_cases)

lemma mapPosts_quiet:
  "(\<And>p. p \<in> set ps \<Longrightarrow> due D b p \<Longrightarrow> post_id p \<in> L) \<Longrightarrow>
   mapPosts D b L ps = (map (\<lambda>p. (p, [])) ps, L)"
proof (induction ps)
  case Nil
  show ?case by simp
next
  case (Cons p ps)
  have "checkPost D b L p = (p, L, [])"
    using Cons.prems [of p] by (auto simp: checkPost_cases)
  moreover have "mapPosts D b L ps = (map (\<lambda>p. (p, [])) ps, L)"
    using Cons.prems by (intro Cons.IH) auto
  ultimately show ?case by simp
qed

lemma mapPosts_posts_set:
  "q \<in> set (map fst (fst (mapPosts D b L ps))) \<Longrightarrow>
   \<exists>p \<in> set ps. post_id q = post_id p \<and> due D b q = due D b p"
proof (induction ps arbitrary: L)
  case Nil
  then show ?case by simp
next
  case (Cons p ps)
  from Cons.prems
  have "q = fst (checkPost D b L p) \<or>
        q \<in> set (map fst (fst (mapPosts D b (fst (snd (checkPost D b L p))) ps)))"
    unfolding mapPosts_Cons_fst by auto
  then show ?case
  proof
    assume "q = fst (checkPost D b L p)"
    then show ?thesis using checkPost_post [of D b L p] by auto
  next
    assume "q \<in> set (map fst (fst (mapPosts D b (fst (snd (checkPost D b L p))) ps)))"
    from Cons.IH [OF this] show ?thesis by auto
  qed
qed

lemma mapPosts_fired_once:
  "length (filter (\<lambda>r. post_id (fst r) = i \<and> snd r \<noteq> []) (fst (mapPosts D b L ps)))
     \<le> (if i \<in> L then 0 else 1)"
proof (induction ps arbitrary: L)
  case Nil
  show ?case by simp
next
  case (Cons p ps)
  show ?case
    unfolding mapPosts_Cons_fst
    using Cons.IH [of "insert (post_id p) L"] Cons.IH [of L]
    by (auto simp: checkPost_cases split: if_splits)
qed

text \<open>
  Claim C2. Two ticks back to back, the second on the state the first left, at the same
  clock reading: the second tick emits no event and returns the post list and the set
  as they were, and over both ticks at most one post of any given id is announced.
\<close>

theorem checkAlarms_twice:
  "case checkAlarms D b L posts of
     (posts1, L1, trace1) \<Rightarrow>
       checkAlarms D b L1 posts1 = (posts1, L1, []) \<and>
       length (filter (\<lambda>r. post_id (fst r) = i \<and> snd r \<noteq> [])
                 (fst (mapPosts D b L posts) @ fst (mapPosts D b L1 posts1))) \<le> 1"
proof -
  obtain rs L1 where m: "mapPosts D b L posts = (rs, L1)"
    by (cases "mapPosts D b L posts") auto
  let ?posts1 = "map fst rs"
  have ca: "checkAlarms D b L posts = (?posts1, L1, concat (map snd rs))"
    using m by (simp add: checkAlarms_def Let_def)
  have L1: "L1 = L \<union> post_id ` {q \<in> set posts. due D b q}"
    using mapPosts_ledger [of D b L posts] m by simp
  have covered: "post_id q \<in> L1" if "q \<in> set ?posts1" "due D b q" for q
  proof -
    from that(1) m obtain p where "p \<in> set posts" "post_id q = post_id p" "due D b q = due D b p"
      using mapPosts_posts_set [of q D b L posts] by auto
    with that(2) show ?thesis unfolding L1 by auto
  qed
  have second: "mapPosts D b L1 ?posts1 = (map (\<lambda>p. (p, [])) ?posts1, L1)"
    by (rule mapPosts_quiet) (rule covered)
  have "checkAlarms D b L1 ?posts1 = (?posts1, L1, [])"
    using second by (simp add: checkAlarms_def Let_def comp_def)
  moreover have "length (filter (\<lambda>r. post_id (fst r) = i \<and> snd r \<noteq> [])
                   (fst (mapPosts D b L posts) @ fst (mapPosts D b L1 ?posts1))) \<le> 1"
    using mapPosts_fired_once [of i D b L posts] second by (simp add: comp_def split: if_splits)
  ultimately show ?thesis using ca by simp
qed

text \<open>
  The two ticks of C2 on \<open>[exLater, exSoon]\<close>: the first announces the post due in 90
  seconds, the second is silent.
\<close>

theorem checkAlarms_twice_witness:
  "checkAlarms exDate exBrowser {} [exLater, exSoon] =
     ([exLater, exSoon\<lparr>notified := Some True\<rparr>], {Some ''a1''},
      [LedgerAdd (Some ''a1''), AudioRewind, Toast (Some ''Ship release'') (Some ''bg-pink-500''),
       AudioPlay, ConsoleWarn ''Audio playback prevented'']) \<and>
   checkAlarms exDate exBrowser {Some ''a1''} [exLater, exSoon\<lparr>notified := Some True\<rparr>] =
     ([exLater, exSoon\<lparr>notified := Some True\<rparr>], {Some ''a1''}, [])"
  using checkAlarms_twice [where D = exDate and b = exBrowser and L = "{}" and
      posts = "[exLater, exSoon]" and i = "Some ''a1''"]
  by (simp add: tick_defs ex_defs)

text \<open>
  Claim C10. A tick returns a list of the same length, and at every position the post
  keeps its id, text, time and colour; its \<open>notified\<close> field is either unchanged or
  has become \<open>true\<close> from a value that was not \<open>true\<close> (\<open>false\<close> or undefined).
\<close>

theorem checkAlarms_frame:
  assumes "i < length posts"
  shows "length (fst (checkAlarms D b L posts)) = length posts \<and>
         post_id (fst (checkAlarms D b L posts) ! i) = post_id (posts ! i) \<and>
         post_text (fst (checkAlarms D b L posts) ! i) = post_text (posts ! i) \<and>
         post_time (fst (checkAlarms D b L posts) ! i) = post_time (posts ! i) \<and>
         color (fst (checkAlarms D b L posts) ! i) = color (posts ! i) \<and>
         (notified (fst (checkAlarms D b L posts) ! i) = notified (posts ! i) \<or>
          notified (posts ! i) \<noteq> Some True \<and>
          notified (fst (checkAlarms D b L posts) ! i) = Some True)"
proof -
  have len: "i < length (fst (mapPosts D b L posts))"
    using assms by (simp add: mapPosts_length)
  have "fst (checkAlarms D b L posts) ! i =
          fst (checkPost D b (ledger_at D b L posts i) (posts ! i))"
    using len mapPosts_nth [OF assms, of D b L]
    by (simp add: checkAlarms_posts split: prod.splits)
  then show ?thesis
    using checkPost_post [of D b "ledger_at D b L posts i" "posts ! i"]
    by (auto simp: checkAlarms_posts mapPosts_length)
qed

theorem checkAlarms_frame_witness:
  "(1::nat) < length [exLater, exSoon] \<and>
   length (fst (checkAlarms exDate exBrowser {} [exLater, exSoon])) = 2 \<and>
   post_id (fst (checkAlarms exDate exBrowser {} [exLater, exSoon]) ! 1) = Some ''a1'' \<and>
   notified ([exLater, exSoon] ! 1) = Some False \<and>
   notified (fst (checkAlarms exDate exBrowser {} [exLater, exSoon]) ! 1) = Some True"
  using checkAlarms_frame [of 1 "[exLater, exSoon]" exDate exBrowser "{}"]
  by (simp add: tick_defs ex_defs)

section \<open>Properties of loading\<close>

lemma withColor_core [simp]: "core (withColor r p) = core p"
  by (simp add: withColor_def core_def)

lemma withColor_time [simp]: "post_time (withColor r p) = post_time p"
  by (simp add: withColor_def)

lemma withColor_notified [simp]: "notified (withColor r p) = Some False"
  by (simp add: withColor_def)

lemma withColor_isUpcoming [simp]: "isUpcoming D n (withColor r p) = isUpcoming D n p"
  by (simp add: isUpcoming_def)

lemma randomColor_in_COLORS: "randomColor r \<in> set COLORS"
  unfolding randomColor_def by (rule nth_mem) (simp add: COLORS_def)

lemma withColor_color:
  "color (withColor r p) =
     (if color p = None \<or> color p = Some [] then Some (randomColor r) else color p)"
  by (auto simp: withColor_def split: option.splits)

lemma withColors_records:
  "withColors rnd k (map Some recs) =
     Some (map (\<lambda>(i, p). withColor (rnd i) p) (enumerate k recs))"
  by (induction recs arbitrary: k) simp_all

lemma withColors_null: "None \<in> set xs \<Longrightarrow> withColors rnd k xs = None"
proof (induction xs arbitrary: k)
  case Nil
  then show ?case by simp
next
  case (Cons x xs)
  then show ?case by (cases x) (auto split: option.splits)
qed

lemma loadPosts_records:
  assumes "s \<noteq> []" and "J s = Array (map Some recs)"
  shows "loadPosts J D rnd n (Some s) posts0 =
           (sort_key (getTime D)
              (filter (isUpcoming D n) (map (\<lambda>(i, p). withColor (rnd i) p) (enumerate 0 recs))),
            [])"
  using assms by (simp add: loadPosts_def withColors_records)




lemma loaded_set:
  assumes "s \<noteq> []" and "J s = Array (map Some recs)"
  shows "set (fst (loadPosts J D rnd n (Some s) posts0)) =
           {withColor (rnd i) (recs ! i) | i. i < length recs \<and> isUpcoming D n (recs ! i)}"
proof -
  have "set (enumerate 0 recs) = {(i, recs ! i) | i. i < length recs}"
    by (auto simp: in_set_enumerate_eq)
  then show ?thesis
    using assms by (auto simp: loadPosts_records [of s J recs D rnd n posts0] image_iff)
qed





section \<open>What a load keeps and what it drops\<close>

lemma isPast_not_upcoming: "isPast D n p \<Longrightarrow> \<not> isUpcoming D n p"
  by (auto simp: isPast_def isUpcoming_def split: option.splits)

lemma isUpcoming_time_cong: "post_time q = post_time p \<Longrightarrow> isUpcoming D n q = isUpcoming D n p"
  by (simp add: isUpcoming_def)

lemma loaded_upcoming:
  assumes "s \<noteq> []" and "J s = Array (map Some recs)"
    and "q \<in> set (fst (loadPosts J D rnd n (Some s) posts0))"
  shows "isUpcoming D n q"
  using assms(3) unfolding loaded_set [of s J recs D rnd n posts0, OF assms(1,2)] by auto

lemma loaded_origin:
  assumes "s \<noteq> []" and "J s = Array (map Some recs)"
    and "q \<in> set (fst (loadPosts J D rnd n (Some s) posts0))"
  shows "\<exists>p \<in> set recs. \<exists>r. q = withColor r p"
  using assms(3) unfolding loaded_set [of s J recs D rnd n posts0, OF assms(1,2)] by auto

lemma loaded_admitted:
  assumes "s \<noteq> []" and "J s = Array (map Some recs)"
    and "p \<in> set recs" and "isUpcoming D n p"
  shows "\<exists>q \<in> set (fst (loadPosts J D rnd n (Some s) posts0)). core q = core p"
proof -
  from assms(3) obtain i where i: "i < length recs" "recs ! i = p"
    by (auto simp: in_set_conv_nth)
  then have "withColor (rnd i) p \<in> set (fst (loadPosts J D rnd n (Some s) posts0))"
    unfolding loaded_set [of s J recs D rnd n posts0, OF assms(1,2)] using assms(4) by auto
  then show ?thesis by (intro bexI [of _ "withColor (rnd i) p"]) simp_all
qed

lemma mapPosts_toast_origin:
  "Toast x c \<in> set (concat (map snd (fst (mapPosts D b L ps)))) \<Longrightarrow>
   \<exists>q \<in> set ps. post_text q = x \<and> color q = c"
proof (induction ps arbitrary: L)
  case Nil
  then show ?case by simp
next
  case (Cons p ps)
  from Cons.prems
  have "Toast x c \<in> set (snd (snd (checkPost D b L p))) \<or>
        Toast x c \<in> set (concat (map snd (fst (mapPosts D b (fst (snd (checkPost D b L p))) ps))))"
    unfolding mapPosts_Cons_fst by auto
  then show ?case
  proof
    assume "Toast x c \<in> set (snd (snd (checkPost D b L p)))"
    then have "post_text p = x \<and> color p = c"
      by (auto simp: checkPost_cases announce_def split: if_splits)
    then show ?thesis by auto
  next
    assume "Toast x c \<in> set (concat (map snd (fst (mapPosts D b (fst (snd (checkPost D b L p))) ps))))"
    from Cons.IH [OF this] show ?thesis by auto
  qed
qed

lemma mapPosts_look:
  "map (\<lambda>p. (post_text p, color p)) (map fst (fst (mapPosts D b L ps))) =
   map (\<lambda>p. (post_text p, color p)) ps"
proof (induction ps arbitrary: L)
  case Nil
  show ?case by simp
next
  case (Cons p ps)
  show ?case
    unfolding mapPosts_Cons_fst using Cons.IH by (simp add: checkPost_cases)
qed

lemma runTicks_toast_origin:
  "Toast x c \<in> set (snd (snd (runTicks D bs L ps))) \<Longrightarrow>
   (x, c) \<in> set (map (\<lambda>p. (post_text p, color p)) ps)"
proof (induction bs arbitrary: L ps)
  case Nil
  then show ?case by simp
next
  case (Cons b bs)
  obtain ps1 L1 tr1 where ca: "checkAlarms D b L ps = (ps1, L1, tr1)"
    by (cases "checkAlarms D b L ps") auto
  have ps1: "ps1 = map fst (fst (mapPosts D b L ps))"
    using ca checkAlarms_posts [of D b L ps] by simp
  have tr1: "tr1 = concat (map snd (fst (mapPosts D b L ps)))"
    using ca checkAlarms_events [of D b L ps] by simp
  have look: "map (\<lambda>p. (post_text p, color p)) ps1 = map (\<lambda>p. (post_text p, color p)) ps"
    unfolding ps1 by (rule mapPosts_look)
  from Cons.prems ca
  have "Toast x c \<in> set tr1 \<or> Toast x c \<in> set (snd (snd (runTicks D bs L1 ps1)))"
    by (auto split: prod.splits)
  then show ?case
  proof
    assume "Toast x c \<in> set tr1"
    then show ?thesis using mapPosts_toast_origin [of x c D b L ps] tr1 by auto
  next
    assume "Toast x c \<in> set (snd (snd (runTicks D bs L1 ps1)))"
    from Cons.IH [OF this] show ?thesis unfolding look .
  qed
qed

text \<open>
  Claim C3, as it holds. A stored post whose time is not after the clock reading of the
  load is dropped from the collection altogether: every loaded post is upcoming and has
  another time, so the loaded collection is its own upcoming part and its past part is
  empty (the dropped post is not shown in the past view), and whatever sequence of ticks
  runs on the loaded collection, every toast shown is that of a post of the collection.
\<close>

theorem load_drops_past:
  assumes "s \<noteq> []" and "J s = Array (map Some recs)" and "p \<in> set recs" and "isPast D n p"
  shows "let loaded = fst (loadPosts J D rnd n (Some s) posts0)
         in list_all (\<lambda>q. isUpcoming D n q \<and> post_time q \<noteq> post_time p) loaded \<and>
            upcomingPosts D n loaded = loaded \<and>
            pastPosts D n loaded = [] \<and>
            (\<forall>bs L x c. Toast x c \<in> set (snd (snd (runTicks D bs L loaded))) \<longrightarrow>
                        (\<exists>q \<in> set loaded. post_text q = x \<and> color q = c))"
proof -
  let ?loaded = "fst (loadPosts J D rnd n (Some s) posts0)"
  have up: "isUpcoming D n q" if "q \<in> set ?loaded" for q
    using loaded_upcoming [where s = s and J = J, OF assms(1,2) that] .
  have np: "\<not> isUpcoming D n p"
    using assms(4) by (rule isPast_not_upcoming)
  have one: "list_all (\<lambda>q. isUpcoming D n q \<and> post_time q \<noteq> post_time p) ?loaded"
    unfolding list_all_iff using up np isUpcoming_time_cong [of _ p D n] by blast
  have two: "upcomingPosts D n ?loaded = ?loaded"
    unfolding upcomingPosts_def using up by (simp add: filter_id_conv)
  have three: "pastPosts D n ?loaded = []"
    unfolding pastPosts_def using up isPast_not_upcoming [of D n] by (auto simp: filter_empty_conv)
  have four: "\<exists>q \<in> set ?loaded. post_text q = x \<and> color q = c"
    if "Toast x c \<in> set (snd (snd (runTicks D bs L ?loaded)))" for bs L x c
    using runTicks_toast_origin [OF that] by auto
  show ?thesis
    unfolding Let_def using one two three four by blast
qed

theorem load_drops_past_witness:
  "''B'' \<noteq> [] \<and> exParse ''B'' = Array (map Some [exOld]) \<and> exOld \<in> set [exOld] \<and>
   isPast exDate exNow exOld \<and>
   fst (loadPosts exParse exDate exRnd exNow (Some ''B'') []) = [] \<and>
   pastPosts exDate exNow (fst (loadPosts exParse exDate exRnd exNow (Some ''B'') [])) = []"
  using load_drops_past [of "''B''" exParse "[exOld]" exOld exDate exNow exRnd "[]"]
  by (simp add: load_defs ex_defs)

text \<open>
  Claim C3 as stated fails: the post stored with a time five minutes before the load
  is not in \<open>pastPosts\<close> after the load.
\<close>

theorem load_past_counterexample:
  "exParse ''B'' = Array [Some exOld] \<and> isPast exDate exNow exOld \<and>
   exOld \<notin> set (pastPosts exDate exNow (fst (loadPosts exParse exDate exRnd exNow (Some ''B'') [])))"
  by (simp add: load_defs ex_defs)

text \<open>
  Claim C8, as it holds. For every non-empty stored text that \<^verbatim>\<open>JSON.parse\<close> rejects,
  or that is not an array, or that is an array with a \<^verbatim>\<open>null\<close> element, the load at
  start-up leaves the collection empty, logs the error and shows the toast
  \<open>Failed to load saved posts\<close>. The result is an ordinary value: nothing is thrown.
\<close>

theorem load_malformed:
  assumes "s \<noteq> []"
    and "J s = Throws \<or> J s = NonArray \<or> (\<exists>xs. J s = Array xs \<and> None \<in> set xs)"
  shows "loadPosts J D rnd n (Some s) [] =
           ([], [ConsoleError ''Failed to parse stored posts'',
                 ToastError ''Failed to load saved posts''])"
  using assms by (auto simp: loadPosts_def loadFailure_def withColors_null)

theorem load_malformed_witness:
  "''{oops'' \<noteq> [] \<and> exParse ''{oops'' = Throws \<and>
   loadPosts exParse exDate exRnd exNow (Some ''{oops'') [] =
     ([], [ConsoleError ''Failed to parse stored posts'',
           ToastError ''Failed to load saved posts''])"
  using load_malformed [of "''{oops''" exParse exDate exRnd exNow]
  by (simp add: ex_defs)

text \<open>
  Claim C8 as stated fails for the empty text, which \<^verbatim>\<open>JSON.parse\<close> rejects:
  \<^verbatim>\<open>if (stored)\<close> is false for it, and no warning is shown.
\<close>

theorem load_empty_text_counterexample:
  "exParse [] = Throws \<and> loadPosts exParse exDate exRnd exNow (Some []) [] = ([], [])"
  by (simp add: load_defs ex_defs)

lemma withColor_palette:
  "if color p = None \<or> color p = Some []
   then \<exists>c \<in> set COLORS. color (withColor r p) = Some c
   else color (withColor r p) = color p"
  using randomColor_in_COLORS [of r] by (simp add: withColor_color)

text \<open>
  Claim C9, as it holds. For a stored array of records, every loaded post is one of the
  records with its id, text and time unchanged and with a colour: its own when it had a
  non-empty one, otherwise one of the palette. A record is admitted exactly when its
  time is a date strictly after the clock reading; a record without a time is
  therefore skipped, and a record without id or text is admitted like any other.
\<close>

theorem load_admits_by_time:
  assumes "s \<noteq> []" and "J s = Array (map Some recs)"
  shows "let loaded = fst (loadPosts J D rnd n (Some s) posts0)
         in (\<forall>q \<in> set loaded. \<exists>p \<in> set recs.
               core q = core p \<and>
               (if color p = None \<or> color p = Some []
                then \<exists>c \<in> set COLORS. color q = Some c
                else color q = color p)) \<and>
            (\<forall>p \<in> set recs. (\<exists>q \<in> set loaded. core q = core p) \<longleftrightarrow> isUpcoming D n p)"
proof -
  let ?loaded = "fst (loadPosts J D rnd n (Some s) posts0)"
  have one: "\<exists>p \<in> set recs. core q = core p \<and>
               (if color p = None \<or> color p = Some []
                then \<exists>c \<in> set COLORS. color q = Some c
                else color q = color p)"
    if "q \<in> set ?loaded" for q
  proof -
    from loaded_origin [where s = s and J = J, OF assms that] obtain p r where p: "p \<in> set recs" and q: "q = withColor r p"
      by auto
    have "core q = core p" unfolding q by simp
    moreover have "if color p = None \<or> color p = Some []
                   then \<exists>c \<in> set COLORS. color q = Some c
                   else color q = color p"
      unfolding q by (rule withColor_palette)
    ultimately show ?thesis using p by (intro bexI [of _ p] conjI)
  qed
  have two: "(\<exists>q \<in> set ?loaded. core q = core p) \<longleftrightarrow> isUpcoming D n p"
    if "p \<in> set recs" for p
  proof
    assume "\<exists>q \<in> set ?loaded. core q = core p"
    then obtain q where q: "q \<in> set ?loaded" "core q = core p" by auto
    from q(2) have "post_time q = post_time p" by (simp add: core_def)
    with loaded_upcoming [where s = s and J = J, OF assms q(1)] show "isUpcoming D n p"
      by (simp add: isUpcoming_def)
  next
    assume "isUpcoming D n p"
    from loaded_admitted [where s = s and J = J, OF assms that this] show "\<exists>q \<in> set ?loaded. core q = core p" .
  qed
  show ?thesis unfolding Let_def
  proof (intro conjI ballI)
    fix q assume "q \<in> set ?loaded"
    then show "\<exists>p \<in> set recs. core q = core p \<and>
               (if color p = None \<or> color p = Some []
                then \<exists>c \<in> set COLORS. color q = Some c
                else color q = color p)" by (rule one)
  next
    fix p assume "p \<in> set recs"
    then show "(\<exists>q \<in> set ?loaded. core q = core p) \<longleftrightarrow> isUpcoming D n p" by (rule two)
  qed
qed


theorem load_admits_by_time_witness:
  "''C'' \<noteq> [] \<and> exParse ''C'' = Array (map Some [exBare]) \<and>
   fst (loadPosts exParse exDate exRnd exNow (Some ''C'') []) =
     [exBare\<lparr>color := Some ''bg-amber-500'', notified := Some False\<rparr>] \<and>
   isUpcoming exDate exNow exBare"
  using load_admits_by_time [of "''C''" exParse "[exBare]" exDate exRnd exNow "[]"]
  by (simp add: load_defs ex_defs)

text \<open>
  Claim C9 as stated fails: a record with neither id nor text, and a time an hour
  ahead, is admitted.
\<close>

theorem load_missing_id_counterexample:
  "exParse ''C'' = Array [Some exBare] \<and> post_id exBare = None \<and> post_text exBare = None \<and>
   fst (loadPosts exParse exDate exRnd exNow (Some ''C'') []) =
     [exBare\<lparr>color := Some ''bg-amber-500'', notified := Some False\<rparr>]"
  by (simp add: load_defs ex_defs)


section \<open>Submitting, the notified flag and the visibility of the page\<close>

text \<open>
  The three checks of \<^verbatim>\<open>handleSubmit\<close> reject with one error toast and leave the post
  list and the form as they were; a post that a successful submission puts into the
  list has \<open>notified = false\<close>.
\<close>

lemma handleSubmit_rejects:
  assumes "trim (input f) = [] \<or> time f = None \<or> (\<exists>t. time f = Some t \<and> t < n)"
  shows "\<exists>msg. handleSubmit toISOString uuid r n f posts = (posts, f, [ToastError msg])"
  using assms by (auto simp: handleSubmit_def split: option.splits)

lemma handleSubmit_created_unnotified:
  assumes "handleSubmit toISOString uuid r n f posts = (posts', f', [ToastSuccess msg])"
    and "q \<in> set posts'" and "q \<notin> set posts"
  shows "notified q = Some False"
  using assms by (auto simp: handleSubmit_def split: option.splits if_splits)

text \<open>
  Claim C5 at a submission whose time equals the clock reading: the check is
  \<^verbatim>\<open>time < new Date()\<close>, so the submission is accepted and the post is created, although
  the time is not strictly in the future and the toast of that check asks for a future
  date and time.
\<close>

theorem handleSubmit_accepts_now:
  "handleSubmit exISO ''u1'' 3 exNow
     \<lparr>input = ''Ship release'', time = Some exNow, editingPostId = None\<rparr> [] =
     ([\<lparr>post_id = Some ''u1'', post_text = Some ''Ship release'',
        post_time = Some ''2030-01-01T00:00:00.000Z'', notified = Some False,
        color = Some ''bg-amber-500''\<rparr>],
      \<lparr>input = [], time = None, editingPostId = None\<rparr>,
      [ToastSuccess ''Post scheduled successfully''])"
  by (simp add: submit_defs ex_defs)

text \<open>The post accepted there is a past post for the rendering at the same instant.\<close>

lemma accepted_now_is_past:
  "pastPosts exDate exNow
     (fst (handleSubmit exISO ''u1'' 3 exNow
             \<lparr>input = ''Ship release'', time = Some exNow, editingPostId = None\<rparr> [])) =
   fst (handleSubmit exISO ''u1'' 3 exNow
          \<lparr>input = ''Ship release'', time = Some exNow, editingPostId = None\<rparr> [])"
  by (simp add: submit_defs ex_defs pastPosts_def isPast_def new_Date_def)









text \<open>The earlier loop tests the flag: a notified post is never announced by it.\<close>

lemma alarmTrigger_skips_notified:
  "notified p = Some True \<Longrightarrow> alarmTriggerPost D b p = (Some p, [])"
  by (simp add: alarmTriggerPost_def)

text \<open>
  Claim C7 with the page not visible and a post that is due: \<^verbatim>\<open>checkAlarms\<close> does not
  read the visibility and plays the sound.
\<close>

theorem checkAlarms_plays_when_hidden:
  "visible exBrowser = False \<and>
   snd (snd (checkAlarms exDate exBrowser {} [exSoon])) =
     [LedgerAdd (Some ''a1''), AudioRewind, Toast (Some ''Ship release'') (Some ''bg-pink-500''),
      AudioPlay, ConsoleWarn ''Audio playback prevented'']"
  by (simp add: tick_defs ex_defs)

text \<open>
  The earlier loop skips the sound when the page is not visible. In \<^verbatim>\<open>checkAlarms\<close>,
  whatever the audio element and \<^verbatim>\<open>play()\<close> do, a post that fires gets
  \<open>notified = true\<close> and its id is in the set.
\<close>

lemma alarmTrigger_silent_when_hidden:
  "\<not> visible b \<Longrightarrow> AudioPlay \<notin> set (snd (alarmTriggerPost D b p))"
  by (simp add: alarmTriggerPost_def)

lemma alarmTrigger_hidden_example:
  "alarmTrigger exDate exBrowser [exSoon] =
     ([exSoon\<lparr>notified := Some True\<rparr>],
      [ToastPlain (Some ''Ship release''), AudioRewind, AudioLoad,
       ConsoleWarn ''Tab not visible. Alarm skipped.''])"
  by (simp add: alarmTrigger_def alarmTriggerPost_def minutesDiff_def new_Date_def ex_defs)

lemma checkPost_completes:
  "due D b p \<Longrightarrow> post_id p \<notin> L \<Longrightarrow>
   notified (fst (checkPost D b L p)) = Some True \<and> post_id p \<in> fst (snd (checkPost D b L p))"
  by (simp add: checkPost_cases)

end
